theory Spec2Isabelle
  imports Main "HOL-Library.Word"
begin

section \<open>The file-checksum tool\<close>

text \<open>
  The tool (package main: \<open>checksumWorker\<close>, \<open>walkWith\<close>, \<open>main\<close>) walks the tree
  under \<open>*dest\<close> with \<open>filepath.Walk\<close> and starts one goroutine per entry that is not
  a directory; each goroutine picks the digest function named by \<open>*sign\<close>, runs it on
  the path and prints the result.

  A Go \<open>error\<close> is modelled by its message; \<open>nil\<close> is \<open>None\<close>.
\<close>

type_synonym error = string

subsection \<open>checksumWorker\<close>

text \<open>
  The three digest functions \<open>FileCrc32\<close>, \<open>FileMd5Sum\<close> and \<open>FileSha256\<close> are
  called by \<open>checksumWorker\<close> with the signature
  \<open>func(filePath string) (string, error)\<close>; they are parameters of the model.
\<close>

type_synonym filehash = "string \<Rightarrow> string \<times> error option"

record hashers =
  FileCrc32 :: filehash
  FileMd5Sum :: filehash
  FileSha256 :: filehash

text \<open>The \<open>switch *sign\<close> of \<open>checksumWorker\<close>; \<open>None\<close> is its default branch.\<close>

definition select_hash :: "string \<Rightarrow> hashers \<Rightarrow> filehash option" where
  "select_hash sign hs =
     (if sign = ''crc'' then Some (FileCrc32 hs)
      else if sign = ''md5'' then Some (FileMd5Sum hs)
      else if sign = ''sha256'' then Some (FileSha256 hs)
      else None)"

definition newline :: string where
  "newline = [CHR 0x0A]"

text \<open>
  What \<open>checksumWorker\<close> does with the result \<open>cs, err\<close> of the digest function: the
  error it returns and the text it prints (\<open>"Error: %v"\<close>, or \<open>"%s :: %s\n"\<close>).
\<close>

definition report :: "string \<Rightarrow> string \<times> error option \<Rightarrow> error option \<times> string" where
  "report filePath res =
     (case res of
        (cs, Some err) \<Rightarrow> (Some err, ''Error: '' @ err)
      | (cs, None) \<Rightarrow> (None, filePath @ '' :: '' @ cs @ newline))"

text \<open>\<open>checksumWorker\<close>: the returned error and the text written to standard output.\<close>

definition checksumWorker :: "string \<Rightarrow> hashers \<Rightarrow> string \<Rightarrow> error option \<times> string" where
  "checksumWorker sign hs filePath =
     (case select_hash sign hs of
        None \<Rightarrow> (Some ''Algorithm not supported.'', [])
      | Some filehash \<Rightarrow> report filePath (filehash filePath))"

subsection \<open>walkWith\<close>

text \<open>
  \<open>os.FileInfo\<close>, as far as the tool reads it: the type bits of \<open>Mode()\<close>, one kind
  per entry. \<open>IsDir()\<close> is \<open>Mode().IsDir()\<close>.
\<close>

datatype FileMode =
  ModeDir | ModeRegular | ModeSymlink | ModeNamedPipe | ModeSocket
  | ModeDevice | ModeCharDevice | ModeIrregular

record FileInfo =
  Mode :: FileMode

definition IsDir :: "FileInfo \<Rightarrow> bool" where
  "IsDir info = (Mode info = ModeDir)"

definition IsRegular :: "FileInfo \<Rightarrow> bool" where
  "IsRegular info = (Mode info = ModeRegular)"

text \<open>
  A call either returns or panics. A method call on a nil interface value is a run-time
  panic (nil pointer dereference).
\<close>

datatype 'a exec = Panic string | Return 'a

definition nil_dereference :: string where
  "nil_dereference = ''runtime error: invalid memory address or nil pointer dereference''"

text \<open>
  \<open>walkWith\<close>. The state it changes is the list of goroutines started so far, each named
  by the path given to \<open>go checksumWorker(path)\<close>, in the order of the \<open>go\<close> statements.
  \<open>info\<close> is an interface value and may be nil (\<open>None\<close>).
\<close>

definition walkWith ::
  "string \<Rightarrow> FileInfo option \<Rightarrow> error option \<Rightarrow> string list \<Rightarrow> error option exec \<times> string list" where
  "walkWith path info err gs =
     (case info of
        None \<Rightarrow> (Panic nil_dereference, gs)
      | Some i \<Rightarrow>
          if IsDir i then (Return None, gs)
          else (Return None, gs @ [path]))"

subsection \<open>filepath.Walk\<close>

text \<open>
  The file tree as \<open>filepath.Walk\<close> sees it. \<open>Broken e\<close>: \<open>os.Lstat\<close> on the path fails
  with \<open>e\<close>. \<open>Node m es\<close>: \<open>os.Lstat\<close> gives mode \<open>m\<close>, and when that is a directory its
  entries are \<open>es\<close>, names in lexical order. \<open>Unlistable e\<close>: a directory whose names
  cannot be read.
\<close>

datatype fsnode =
  Broken error
  | Node FileMode "(string \<times> fsnode) list"
  | Unlistable error

type_synonym WalkFunc =
  "string \<Rightarrow> FileInfo option \<Rightarrow> error option \<Rightarrow> string list \<Rightarrow> error option exec \<times> string list"

text \<open>
  The two sentinel errors of \<open>filepath\<close>. Go compares them by identity; here an error
  is its message, so they are compared by message. \<open>walkWith\<close> returns neither.
\<close>

definition SkipDir :: error where
  "SkipDir = ''skip this directory''"

definition SkipAll :: error where
  "SkipAll = ''skip everything and stop the walk''"

text \<open>
  \<open>filepath.Join\<close> of a directory's path and one of its names; the cleaning of the
  result (\<open>filepath.Clean\<close>) is left out.
\<close>

definition Join :: "string \<Rightarrow> string \<Rightarrow> string" where
  "Join path name = path @ ''/'' @ name"

fun lstat :: "fsnode \<Rightarrow> error + FileInfo" where
  "lstat (Broken e) = Inl e"
| "lstat (Node m es) = Inr \<lparr>Mode = m\<rparr>"
| "lstat (Unlistable e) = Inr \<lparr>Mode = ModeDir\<rparr>"

text \<open>
  The standard library's \<open>walk\<close>, with the \<open>os.Lstat\<close> that precedes each call of it:
  an entry whose \<open>Lstat\<close> fails is given to the function with a nil info and the error;
  an entry that is not a directory is given to the function; a directory is given to
  the function with the error of reading its names, and entered when both that error
  and the function's result are nil. In the loop over the names, \<open>SkipDir\<close> from a
  directory (or from an entry whose \<open>Lstat\<close> failed) is not an error.
\<close>

fun walk :: "WalkFunc \<Rightarrow> string \<Rightarrow> fsnode \<Rightarrow> string list \<Rightarrow> error option exec \<times> string list"
  and walkNames ::
    "WalkFunc \<Rightarrow> string \<Rightarrow> (string \<times> fsnode) list \<Rightarrow> string list \<Rightarrow> error option exec \<times> string list"
where
  "walk fn path (Broken e) gs = fn path None (Some e) gs"
| "walk fn path (Unlistable e) gs = fn path (Some \<lparr>Mode = ModeDir\<rparr>) (Some e) gs"
| "walk fn path (Node m es) gs =
     (if \<not> IsDir \<lparr>Mode = m\<rparr> then fn path (Some \<lparr>Mode = m\<rparr>) None gs
      else
        (case fn path (Some \<lparr>Mode = m\<rparr>) None gs of
           (Return None, gs') \<Rightarrow> walkNames fn path es gs'
         | r \<Rightarrow> r))"
| "walkNames fn path [] gs = (Return None, gs)"
| "walkNames fn path ((name, n) # rest) gs =
     (case walk fn (Join path name) n gs of
        (Panic p, gs') \<Rightarrow> (Panic p, gs')
      | (Return None, gs') \<Rightarrow> walkNames fn path rest gs'
      | (Return (Some e), gs') \<Rightarrow>
          if e = SkipDir \<and> (case lstat n of Inl _ \<Rightarrow> True | Inr i \<Rightarrow> IsDir i)
          then walkNames fn path rest gs'
          else (Return (Some e), gs'))"

definition Walk :: "string \<Rightarrow> fsnode \<Rightarrow> WalkFunc \<Rightarrow> string list \<Rightarrow> error option exec \<times> string list" where
  "Walk root fs fn gs =
     (case walk fn root fs gs of
        (Return (Some e), gs') \<Rightarrow>
          if e = SkipDir \<or> e = SkipAll then (Return None, gs') else (Return (Some e), gs')
      | r \<Rightarrow> r)"

subsection \<open>main and the goroutines\<close>

text \<open>
  \<open>main\<close> calls \<open>filepath.Walk(*dest, walkWith)\<close>, prints the error if there is one, and
  returns. \<open>walkWith\<close> does not read anything a goroutine writes, so what \<open>main\<close> does is
  fixed by the tree: the \<open>go\<close> statements it executes, in order, and how the walk ends.
\<close>

definition main_walk :: "string \<Rightarrow> fsnode \<Rightarrow> error option exec \<times> string list" where
  "main_walk dest fs = Walk dest fs walkWith []"

text \<open>
  A goroutine running \<open>checksumWorker\<close> is \<open>Ready\<close> when started, \<open>Hashing\<close> once the
  switch has chosen a digest function and that function is running, and \<open>Done r\<close> when
  \<open>checksumWorker\<close> has returned \<open>r\<close>.
\<close>

datatype gstatus = Ready | Hashing | Done "error option"

text \<open>
  The state of a run: the \<open>go\<close> statements \<open>main\<close> has still to execute, how its walk
  ends after them, the exit status once the process has ended, the goroutines started
  so far, and the text printed so far.
\<close>

record state =
  to_spawn :: "string list"
  ending :: "error option exec"
  exit_status :: "nat option"
  pool :: "(string \<times> gstatus) list"
  stdout :: string

definition start :: "string \<Rightarrow> fsnode \<Rightarrow> state" where
  "start dest fs =
     (case main_walk dest fs of
        (r, gs) \<Rightarrow> \<lparr>to_spawn = gs, ending = r, exit_status = None, pool = [], stdout = []\<rparr>)"

text \<open>
  One step of \<open>main\<close>: the next \<open>go\<close> statement, or the end of the program. A panic ends
  the process with status 2; a return from \<open>main\<close> ends it with status 0, after
  \<open>"Error : %s"\<close> when \<open>Walk\<close> returned an error. No goroutine is waited for.
\<close>

definition main_step :: "state \<Rightarrow> state" where
  "main_step s =
     (case to_spawn s of
        p # ps \<Rightarrow> s\<lparr>to_spawn := ps, pool := pool s @ [(p, Ready)]\<rparr>
      | [] \<Rightarrow>
          (case ending s of
             Panic m \<Rightarrow> s\<lparr>exit_status := Some 2\<rparr>
           | Return (Some e) \<Rightarrow> s\<lparr>stdout := stdout s @ ''Error : '' @ e, exit_status := Some 0\<rparr>
           | Return None \<Rightarrow> s\<lparr>exit_status := Some 0\<rparr>))"

text \<open>
  One step of goroutine \<open>i\<close>: the switch of \<open>checksumWorker\<close> (lines 23 to 37), or the
  end of the digest function with what follows it (lines 39 to 46).
\<close>

definition worker_step :: "string \<Rightarrow> hashers \<Rightarrow> nat \<Rightarrow> state \<Rightarrow> state" where
  "worker_step sign hs i s =
     (if length (pool s) \<le> i then s
      else
        (case pool s ! i of
           (p, Ready) \<Rightarrow>
             (case select_hash sign hs of
                None \<Rightarrow> s\<lparr>pool := (pool s)[i := (p, Done (Some ''Algorithm not supported.''))]\<rparr>
              | Some filehash \<Rightarrow> s\<lparr>pool := (pool s)[i := (p, Hashing)]\<rparr>)
         | (p, Hashing) \<Rightarrow>
             (case select_hash sign hs of
                None \<Rightarrow> s
              | Some filehash \<Rightarrow>
                  (case report p (filehash p) of
                     (r, out) \<Rightarrow> s\<lparr>pool := (pool s)[i := (p, Done r)], stdout := stdout s @ out\<rparr>))
         | (p, Done r) \<Rightarrow> s))"

text \<open>The scheduler picks who moves; nothing moves once the process has ended.\<close>

datatype choice = Main | Worker nat

definition step :: "string \<Rightarrow> hashers \<Rightarrow> state \<Rightarrow> choice \<Rightarrow> state" where
  "step sign hs s c =
     (if exit_status s \<noteq> None then s
      else (case c of Main \<Rightarrow> main_step s | Worker i \<Rightarrow> worker_step sign hs i s))"

definition run :: "string \<Rightarrow> hashers \<Rightarrow> choice list \<Rightarrow> state \<Rightarrow> state" where
  "run sign hs sched s = foldl (step sign hs) s sched"

text \<open>The number of digest computations executing in a state.\<close>

definition hashing :: "state \<Rightarrow> nat" where
  "hashing s = length (filter (\<lambda>g. snd g = Hashing) (pool s))"

text \<open>No entry that the walk can reach fails \<open>os.Lstat\<close>.\<close>

fun lstat_ok :: "fsnode \<Rightarrow> bool" and lstat_ok_names :: "(string \<times> fsnode) list \<Rightarrow> bool" where
  "lstat_ok (Broken e) = False"
| "lstat_ok (Unlistable e) = True"
| "lstat_ok (Node m es) = (if m = ModeDir then lstat_ok_names es else True)"
| "lstat_ok_names [] = True"
| "lstat_ok_names ((name, n) # rest) = (lstat_ok n \<and> lstat_ok_names rest)"

subsection \<open>The digest functions\<close>

text \<open>
  Modelled from the spec: the digest functions \<open>FileCrc32\<close>, \<open>FileMd5Sum\<close> and
  \<open>FileSha256\<close> are not among the sources. Section 4.1 (Digest Provider) gives their
  contract: \<open>digestFunction(path) \<rightarrow> (digestString, ReadError)\<close>; the function reads
  the bytes of the file at \<open>path\<close>, fails with a \<open>ReadError\<close> when the file cannot be
  opened or read, and otherwise returns the digest of the bytes as a lowercase
  hexadecimal string. The hash algorithm itself (\<open>alg\<close>, from bytes to digest bytes) is
  an external collaborator and a parameter here, as is the result of opening and reading
  each path (\<open>readFile\<close>).
\<close>

type_synonym byte = "8 word"

definition hex_digit :: "nat \<Rightarrow> char" where
  "hex_digit n = ''0123456789abcdef'' ! (n mod 16)"

definition hex_byte :: "byte \<Rightarrow> string" where
  "hex_byte b = [hex_digit (unat b div 16), hex_digit (unat b mod 16)]"

definition hex_string :: "byte list \<Rightarrow> string" where
  "hex_string bs = concat (map hex_byte bs)"

definition digestFunction ::
  "(byte list \<Rightarrow> byte list) \<Rightarrow> (string \<Rightarrow> error + byte list) \<Rightarrow> filehash" where
  "digestFunction alg readFile path =
     (case readFile path of
        Inl e \<Rightarrow> ([], Some e)
      | Inr bytes \<Rightarrow> (hex_string (alg bytes), None))"

definition lower_hex :: "char \<Rightarrow> bool" where
  "lower_hex c = (c \<in> set ''0123456789abcdef'')"

subsection \<open>Example inputs\<close>

text \<open>
  Digest functions for the examples: every file can be read but \<open>r/b\<close> and \<open>r/c\<close>,
  which cannot be opened.
\<close>

definition example_md5 :: filehash where
  "example_md5 p =
     (if p = ''r/b'' \<or> p = ''r/c'' then ([], Some ''permission denied'')
      else (''d41d8cd98f00b204e9800998ecf8427e'', None))"

definition example_hashers :: hashers where
  "example_hashers =
     \<lparr>FileCrc32 = (\<lambda>p. (''00000000'', None)),
      FileMd5Sum = example_md5,
      FileSha256 = (\<lambda>p. (''e3b0c442'', None))\<rparr>"

text \<open>A directory with one regular file.\<close>

definition one_file_tree :: fsnode where
  "one_file_tree = Node ModeDir [(''a'', Node ModeRegular [])]"

text \<open>A directory with two regular files.\<close>

definition two_file_tree :: fsnode where
  "two_file_tree = Node ModeDir [(''a'', Node ModeRegular []), (''a2'', Node ModeRegular [])]"

text \<open>A directory with a readable file and two that cannot be opened.\<close>

definition locked_tree :: fsnode where
  "locked_tree =
     Node ModeDir [(''a'', Node ModeRegular []), (''b'', Node ModeRegular []), (''c'', Node ModeRegular [])]"

text \<open>
  A state of a run over \<open>locked_tree\<close>: the goroutines of \<open>r/a\<close> and \<open>r/b\<close> are hashing,
  \<open>main\<close> has still to start the goroutine of \<open>r/c\<close>.
\<close>

definition locked_state :: state where
  "locked_state =
     \<lparr>to_spawn = [''r/c''], ending = Return None, exit_status = None,
      pool = [(''r/a'', Hashing), (''r/b'', Hashing)], stdout = []\<rparr>"

subsection \<open>Two runs that differ in the result of one file\<close>

text \<open>
  The relations below compare a run in which the digest function fails on the file
  \<open>p\<close> with error \<open>e\<close> to a run, under the same schedule, in which the digest function
  gives some other result on \<open>p\<close> and the same result on every other file.

  \<open>same_task\<close>: the two goroutines are for the same path; a goroutine of another file
  has the same status in both runs; a goroutine of \<open>p\<close> is at the same point in both
  runs, and when done it has returned \<open>e\<close> in the first run and \<open>r'\<close> in the second.
\<close>

definition same_task ::
  "string \<Rightarrow> error \<Rightarrow> error option \<Rightarrow> string \<times> gstatus \<Rightarrow> string \<times> gstatus \<Rightarrow> bool" where
  "same_task p e r' g g' =
     (fst g = fst g' \<and>
      (if fst g = p
       then (snd g = Ready \<and> snd g' = Ready) \<or> (snd g = Hashing \<and> snd g' = Hashing)
            \<or> (snd g = Done (Some e) \<and> snd g' = Done r')
       else snd g = snd g'))"

text \<open>
  \<open>same_output_but a b x y\<close>: the outputs \<open>x\<close> and \<open>y\<close> are made of the same pieces in
  the same order, but for pieces that are \<open>a\<close> in \<open>x\<close> and \<open>b\<close> in \<open>y\<close>.
\<close>

inductive same_output_but :: "string \<Rightarrow> string \<Rightarrow> string \<Rightarrow> string \<Rightarrow> bool" for a b where
  nothing: "same_output_but a b [] []"
| common: "same_output_but a b x y \<Longrightarrow> same_output_but a b (x @ c) (y @ c)"
| differ: "same_output_but a b x y \<Longrightarrow> same_output_but a b (x @ a) (y @ b)"

text \<open>
  \<open>same_run_but p e other s s'\<close>: the states \<open>s\<close> and \<open>s'\<close> agree on the exit status, on
  what \<open>main\<close> has still to do and on every goroutine of a file other than \<open>p\<close>; they
  differ at most in the result of the goroutines of \<open>p\<close> and in what these printed.
  \<open>other\<close> is what \<open>checksumWorker\<close> returns and prints for \<open>p\<close> in the second run.
\<close>

definition same_run_but ::
  "string \<Rightarrow> error \<Rightarrow> error option \<times> string \<Rightarrow> state \<Rightarrow> state \<Rightarrow> bool" where
  "same_run_but p e other s s' =
     (exit_status s = exit_status s' \<and> to_spawn s = to_spawn s' \<and> ending s = ending s'
      \<and> list_all2 (same_task p e (fst other)) (pool s) (pool s')
      \<and> same_output_but (''Error: '' @ e) (snd other) (stdout s) (stdout s'))"

text \<open>Digest functions as in \<open>example_hashers\<close>, but \<open>r/b\<close> can be read.\<close>

definition example_md5_b :: filehash where
  "example_md5_b p =
     (if p = ''r/c'' then ([], Some ''permission denied'')
      else (''d41d8cd98f00b204e9800998ecf8427e'', None))"

definition example_hashers_b :: hashers where
  "example_hashers_b =
     \<lparr>FileCrc32 = (\<lambda>p. (''00000000'', None)),
      FileMd5Sum = example_md5_b,
      FileSha256 = (\<lambda>p. (''e3b0c442'', None))\<rparr>"

section \<open>Properties\<close>

subsection \<open>The walk with walkWith\<close>

lemma walk_no_error:
  "fst (walk walkWith path n gs) \<noteq> Return (Some x)"
  "fst (walkNames walkWith path es gs) \<noteq> Return (Some x)"
proof (induction walkWith path n gs and walkWith path es gs arbitrary: and rule: walk_walkNames.induct)
  case (1 path e gs)
  show ?case by (simp add: walkWith_def)
next
  case (2 path e gs)
  show ?case by (simp add: walkWith_def)
next
  case (3 path m es gs)
  then show ?case
    by (auto simp: walkWith_def IsDir_def split: prod.splits exec.splits option.splits)
next
  case (4 path gs)
  show ?case by simp
next
  case (5 path name n rest gs)
  then show ?case by (auto split: prod.splits exec.splits option.splits)
qed

lemma main_walk_no_error: "fst (main_walk dest fs) \<noteq> Return (Some e)"
proof
  assume a: "fst (main_walk dest fs) = Return (Some e)"
  obtain r gs where w: "walk walkWith dest fs [] = (r, gs)"
    by (cases "walk walkWith dest fs []")
  have ne: "r \<noteq> Return (Some x)" for x
    using walk_no_error(1)[where path = dest and n = fs and gs = "[]" and x = x] w by simp
  then have "fst (main_walk dest fs) = r"
    using w by (cases r) (auto simp: main_walk_def Walk_def split: option.splits)
  with a ne show False by simp
qed

lemma walk_returns:
  "lstat_ok n \<Longrightarrow> fst (walk walkWith path n gs) = Return None"
  "lstat_ok_names es \<Longrightarrow> fst (walkNames walkWith path es gs) = Return None"
proof (induction walkWith path n gs and walkWith path es gs arbitrary: and rule: walk_walkNames.induct)
  case (1 path e gs)
  then show ?case by simp
next
  case (2 path e gs)
  show ?case by (simp add: walkWith_def)
next
  case (3 path m es gs)
  then show ?case
    by (auto simp: walkWith_def IsDir_def split: prod.splits exec.splits option.splits)
next
  case (4 path gs)
  show ?case by simp
next
  case (5 path name n rest gs)
  then show ?case by (auto split: prod.splits exec.splits option.splits)
qed

lemma main_walk_returns: "lstat_ok fs \<Longrightarrow> fst (main_walk dest fs) = Return None"
  using walk_returns(1)[where path = dest and n = fs and gs = "[]"]
  by (auto simp: main_walk_def Walk_def split: prod.splits exec.splits option.splits)

subsection \<open>Runs\<close>

lemma run_Nil: "run sign hs [] s = s"
  by (simp add: run_def)

lemma run_Cons: "run sign hs (c # cs) s = run sign hs cs (step sign hs s c)"
  by (simp add: run_def)

lemma run_snoc: "run sign hs (cs @ [c]) s = step sign hs (run sign hs cs s) c"
  by (simp add: run_def)

lemma run_append: "run sign hs (cs @ ds) s = run sign hs ds (run sign hs cs s)"
  by (simp add: run_def)

lemma start_fields:
  "to_spawn (start dest fs) = snd (main_walk dest fs)"
  "ending (start dest fs) = fst (main_walk dest fs)"
  "pool (start dest fs) = []"
  "stdout (start dest fs) = []"
  "exit_status (start dest fs) = None"
  by (simp_all add: start_def split: prod.splits)

text \<open>A step neither loses nor invents a task: started and still to start, in order.\<close>

lemma step_tasks:
  "map fst (pool (step sign hs s c)) @ to_spawn (step sign hs s c) = map fst (pool s) @ to_spawn s"
  by (auto simp: step_def main_step_def worker_step_def map_update list_update_same_conv
      split: choice.splits list.splits exec.splits option.splits prod.splits gstatus.splits)

lemma run_tasks:
  "map fst (pool (run sign hs sched s)) @ to_spawn (run sign hs sched s) = map fst (pool s) @ to_spawn s"
  by (induction sched arbitrary: s) (simp_all add: run_Nil run_Cons step_tasks)

lemma hashing_le_pool: "hashing s \<le> length (pool s)"
  by (simp add: hashing_def)

lemma hashing_bound:
  "hashing (run sign hs sched (start dest fs)) \<le> length (snd (main_walk dest fs))"
proof -
  let ?s = "run sign hs sched (start dest fs)"
  have "length (map fst (pool ?s) @ to_spawn ?s) = length (snd (main_walk dest fs))"
    by (simp only: run_tasks) (simp add: start_fields)
  then have "length (pool ?s) \<le> length (snd (main_walk dest fs))" by simp
  with hashing_le_pool[of ?s] show ?thesis by linarith
qed

lemma step_ending: "ending (step sign hs s c) = ending s"
  by (auto simp: step_def main_step_def worker_step_def
      split: choice.splits list.splits exec.splits option.splits prod.splits gstatus.splits)

lemma run_ending: "ending (run sign hs sched s) = ending s"
  by (induction sched arbitrary: s) (simp_all add: run_Nil run_Cons step_ending)

lemma step_exit_status:
  "exit_status (step sign hs s c) = Some x \<Longrightarrow>
     exit_status s = Some x \<or> (\<exists>r. ending s = Return r \<and> x = 0) \<or> (\<exists>m. ending s = Panic m \<and> x = 2)"
  by (auto simp: step_def main_step_def worker_step_def
      split: choice.splits list.splits exec.splits option.splits prod.splits gstatus.splits if_splits)

lemma run_exit_status:
  "exit_status (run sign hs sched s) = Some x \<Longrightarrow>
     exit_status s = Some x \<or> (\<exists>r. ending s = Return r \<and> x = 0) \<or> (\<exists>m. ending s = Panic m \<and> x = 2)"
proof (induction sched arbitrary: s)
  case Nil
  then show ?case by (simp add: run_Nil)
next
  case (Cons c cs)
  from Cons.IH[of "step sign hs s c"] Cons.prems
  have "exit_status (step sign hs s c) = Some x
      \<or> (\<exists>r. ending s = Return r \<and> x = 0) \<or> (\<exists>m. ending s = Panic m \<and> x = 2)"
    by (simp add: run_Cons step_ending)
  then show ?case using step_exit_status[of sign hs s c x] by blast
qed

text \<open>When \<open>main\<close> moves alone, it starts every goroutine, all of them still \<open>Ready\<close>.\<close>

lemma run_spawn_all:
  "exit_status s = None \<Longrightarrow>
     run sign hs (replicate (length (to_spawn s)) Main) s =
       s\<lparr>to_spawn := [], pool := pool s @ map (\<lambda>p. (p, Ready)) (to_spawn s)\<rparr>"
proof (induction "to_spawn s" arbitrary: s)
  case Nil
  then show ?case by (simp add: run_Nil)
next
  case (Cons p ps)
  let ?t = "step sign hs s Main"
  have t: "?t = s\<lparr>to_spawn := ps, pool := pool s @ [(p, Ready)]\<rparr>"
    using Cons.hyps(2)[symmetric] Cons.prems by (simp add: step_def main_step_def)
  have "run sign hs (replicate (length (to_spawn ?t)) Main) ?t =
       ?t\<lparr>to_spawn := [], pool := pool ?t @ map (\<lambda>p. (p, Ready)) (to_spawn ?t)\<rparr>"
    by (rule Cons.hyps(1)) (simp_all add: t Cons.prems)
  then show ?case
    using Cons.hyps(2)[symmetric] by (simp add: run_Cons t)
qed

lemma run_main_exits:
  assumes "exit_status s = None"
  shows "exit_status (run sign hs (replicate (Suc (length (to_spawn s))) Main) s) \<noteq> None"
proof -
  have "replicate (Suc (length (to_spawn s))) Main = replicate (length (to_spawn s)) Main @ [Main]"
    by (simp add: replicate_append_same)
  then show ?thesis
    using assms
    by (simp add: run_snoc run_spawn_all step_def main_step_def split: exec.splits option.splits)
qed

text \<open>With a supported identifier, the first \<open>k\<close> goroutines can all be hashing at once.\<close>

lemma start_workers:
  assumes sel: "select_hash sign hs = Some filehash"
    and alive: "exit_status s = None"
    and ready: "pool s = map (\<lambda>p. (p, Ready)) ps"
  shows "k \<le> length ps \<Longrightarrow>
     exit_status (run sign hs (map Worker [0..<k]) s) = None
   \<and> pool (run sign hs (map Worker [0..<k]) s) =
       map (\<lambda>p. (p, Hashing)) (take k ps) @ map (\<lambda>p. (p, Ready)) (drop k ps)"
proof (induction k)
  case 0
  then show ?case using alive ready by (simp add: run_Nil)
next
  case (Suc k)
  let ?t = "run sign hs (map Worker [0..<k]) s"
  from Suc have k: "k < length ps" by simp
  from Suc have al: "exit_status ?t = None"
    and pl: "pool ?t = map (\<lambda>p. (p, Hashing)) (take k ps) @ map (\<lambda>p. (p, Ready)) (drop k ps)"
    by simp_all
  have len: "length (pool ?t) = length ps" using k by (simp add: pl)
  have at: "pool ?t ! k = (ps ! k, Ready)"
    using k by (simp add: pl nth_append)
  have st: "step sign hs ?t (Worker k) = ?t\<lparr>pool := (pool ?t)[k := (ps ! k, Hashing)]\<rparr>"
    using al k len at sel by (simp add: step_def worker_step_def)
  have upd: "(pool ?t)[k := (ps ! k, Hashing)] =
      map (\<lambda>p. (p, Hashing)) (take (Suc k) ps) @ map (\<lambda>p. (p, Ready)) (drop (Suc k) ps)"
    using k by (simp add: pl list_update_append take_Suc_conv_app_nth
        Cons_nth_drop_Suc[symmetric])
  have "run sign hs (map Worker [0..<Suc k]) s = step sign hs ?t (Worker k)"
    by (simp add: run_snoc)
  then show ?case by (simp add: st upd al)
qed

text \<open>With an unsupported identifier no goroutine ever hashes or prints.\<close>

lemma step_unsupported:
  assumes "select_hash sign hs = None"
    and "stdout s = []" and "\<And>e. ending s \<noteq> Return (Some e)" and "hashing s = 0"
  shows "stdout (step sign hs s c) = [] \<and> hashing (step sign hs s c) = 0"
proof -
  have nh: "\<And>g. g \<in> set (pool s) \<Longrightarrow> snd g \<noteq> Hashing"
    using assms(4) by (auto simp: hashing_def filter_empty_conv)
  have upd: "filter (\<lambda>g. snd g = Hashing) ((pool s)[i := (p, Done r)]) = []" for i p r
    using nh by (auto simp: filter_empty_conv dest!: set_update_subset_insert[THEN subsetD])
  show ?thesis
    using assms nh upd
    by (auto simp: step_def main_step_def worker_step_def hashing_def filter_empty_conv
        split: choice.splits list.splits exec.splits option.splits prod.splits gstatus.splits)
qed

lemma run_unsupported:
  assumes "select_hash sign hs = None"
  shows "stdout s = [] \<Longrightarrow> (\<And>e. ending s \<noteq> Return (Some e)) \<Longrightarrow> hashing s = 0 \<Longrightarrow>
         stdout (run sign hs sched s) = [] \<and> hashing (run sign hs sched s) = 0"
proof (induction sched arbitrary: s)
  case Nil
  then show ?case by (simp add: run_Nil)
next
  case (Cons c cs)
  have "stdout (step sign hs s c) = [] \<and> hashing (step sign hs s c) = 0"
    using step_unsupported[OF assms Cons.prems(1) Cons.prems(2) Cons.prems(3)] by simp
  then show ?case
    using Cons.IH[of "step sign hs s c"] Cons.prems(2) by (simp add: run_Cons step_ending)
qed

subsection \<open>A failing file and the rest of the run\<close>

text \<open>
  Every move keeps the two runs in step: \<open>same_run_but\<close> is preserved by \<open>main\<close>'s
  moves and by every goroutine's moves, hence by every schedule.
\<close>

lemma main_step_same:
  assumes "same_run_but p e other s s'"
  shows "same_run_but p e other (main_step s) (main_step s')"
proof (cases "to_spawn s")
  case (Cons q qs)
  then have "to_spawn s' = q # qs" using assms by (simp add: same_run_but_def)
  with Cons assms show ?thesis
    by (auto simp: same_run_but_def main_step_def same_task_def intro!: list_all2_appendI)
next
  case Nil
  then have n': "to_spawn s' = []" using assms by (simp add: same_run_but_def)
  have en: "ending s' = ending s" using assms by (simp add: same_run_but_def)
  show ?thesis
  proof (cases "ending s")
    case (Panic m)
    with Nil n' en assms show ?thesis by (simp add: same_run_but_def main_step_def)
  next
    case (Return r)
    show ?thesis
    proof (cases r)
      case None
      with Return Nil n' en assms show ?thesis by (simp add: same_run_but_def main_step_def)
    next
      case (Some x)
      have "same_output_but (''Error: '' @ e) (snd other) (stdout s @ (''Error : '' @ x)) (stdout s' @ (''Error : '' @ x))"
        using assms by (intro same_output_but.common) (simp add: same_run_but_def)
      with Some Return Nil n' en assms show ?thesis by (simp add: same_run_but_def main_step_def)
    qed
  qed
qed

lemma worker_step_same:
  assumes sel: "select_hash sign hs = Some filehash"
    and sel': "select_hash sign hs' = Some filehash'"
    and same: "\<And>q. q \<noteq> p \<Longrightarrow> filehash' q = filehash q"
    and failed: "filehash p = (cs, Some e)"
    and rel: "same_run_but p e (report p (filehash' p)) s s'"
  shows "same_run_but p e (report p (filehash' p)) (worker_step sign hs i s) (worker_step sign hs' i s')"
proof (cases "i < length (pool s)")
  case False
  moreover have len: "length (pool s') = length (pool s)"
    using rel by (auto simp: same_run_but_def dest: list_all2_lengthD)
  ultimately show ?thesis using rel by (simp add: worker_step_def)
next
  case True
  let ?other = "report p (filehash' p)"
  have all: "list_all2 (same_task p e (fst ?other)) (pool s) (pool s')"
    using rel by (simp add: same_run_but_def)
  have len: "length (pool s') = length (pool s)"
    using all by (auto dest: list_all2_lengthD)
  obtain q st where g: "pool s ! i = (q, st)" by (cases "pool s ! i")
  obtain q' st' where g': "pool s' ! i = (q', st')" by (cases "pool s' ! i")
  have t: "same_task p e (fst ?other) (q, st) (q', st')"
    using list_all2_nthD[OF all True] g g' by simp
  then have q': "q' = q" by (simp add: same_task_def)
  have upd: "same_task p e (fst ?other) (q, a) (q, b) \<Longrightarrow>
      list_all2 (same_task p e (fst ?other)) ((pool s)[i := (q, a)]) ((pool s')[i := (q, b)])" for a b
    using all by (rule list_all2_update_cong)
  have fp: "report p (filehash p) = (Some e, ''Error: '' @ e)"
    using failed by (simp add: report_def)
  show ?thesis
  proof (cases st)
    case Ready
    then have "st' = Ready" using t by (auto simp: same_task_def split: if_splits)
    with Ready g g' q' True len sel sel' rel upd[of Hashing Hashing] show ?thesis
      by (simp add: worker_step_def same_run_but_def same_task_def)
  next
    case (Done r)
    then have "\<exists>r''. st' = Done r''" using t by (auto simp: same_task_def split: if_splits)
    with Done g g' q' True len rel show ?thesis
      by (auto simp: worker_step_def)
  next
    case Hashing
    then have h': "st' = Hashing" using t by (auto simp: same_task_def split: if_splits)
    show ?thesis
    proof (cases "q = p")
      case True
      have "same_output_but (''Error: '' @ e) (snd ?other) (stdout s @ (''Error: '' @ e)) (stdout s' @ snd ?other)"
        using rel by (intro same_output_but.differ) (simp add: same_run_but_def)
      with True Hashing h' g g' q' \<open>i < length (pool s)\<close> len sel sel' rel fp
        upd[of "Done (Some e)" "Done (fst ?other)"]
      show ?thesis
        by (auto simp: worker_step_def same_run_but_def same_task_def split: prod.splits)
    next
      case False
      obtain r out where ro: "report q (filehash q) = (r, out)" by (cases "report q (filehash q)")
      have eq: "report q (filehash' q) = (r, out)" using same[OF False] ro by simp
      have "same_output_but (''Error: '' @ e) (snd ?other) (stdout s @ out) (stdout s' @ out)"
        using rel by (intro same_output_but.common) (simp add: same_run_but_def)
      with False Hashing h' g g' q' True len sel sel' rel ro eq upd[of "Done r" "Done r"]
      show ?thesis
        by (simp add: worker_step_def same_run_but_def same_task_def)
    qed
  qed
qed

lemma step_same:
  assumes sel: "select_hash sign hs = Some filehash"
    and sel': "select_hash sign hs' = Some filehash'"
    and same: "\<And>q. q \<noteq> p \<Longrightarrow> filehash' q = filehash q"
    and failed: "filehash p = (cs, Some e)"
    and rel: "same_run_but p e (report p (filehash' p)) s s'"
  shows "same_run_but p e (report p (filehash' p)) (step sign hs s c) (step sign hs' s' c)"
proof -
  have ex: "exit_status s' = exit_status s" using rel by (simp add: same_run_but_def)
  show ?thesis
  proof (cases c)
    case Main
    with ex rel main_step_same[OF rel] show ?thesis by (simp add: step_def)
  next
    case (Worker i)
    with ex rel worker_step_same[OF sel sel' same failed rel, of i] show ?thesis
      by (simp add: step_def)
  qed
qed

lemma run_same:
  assumes sel: "select_hash sign hs = Some filehash"
    and sel': "select_hash sign hs' = Some filehash'"
    and same: "\<And>q. q \<noteq> p \<Longrightarrow> filehash' q = filehash q"
    and failed: "filehash p = (cs, Some e)"
  shows "same_run_but p e (report p (filehash' p)) s s' \<Longrightarrow>
     same_run_but p e (report p (filehash' p)) (run sign hs sched s) (run sign hs' sched s')"
proof (induction sched arbitrary: s s')
  case Nil
  then show ?case by (simp add: run_Nil)
next
  case (Cons c cs)
  have "same_run_but p e (report p (filehash' p)) (step sign hs s c) (step sign hs' s' c)"
    using step_same[OF sel sel' same failed Cons.prems] by simp
  then show ?case by (simp add: run_Cons Cons.IH)
qed

lemma start_same: "same_run_but p e other (start dest fs) (start dest fs)"
  by (simp add: same_run_but_def start_fields same_output_but.nothing)

subsection \<open>The examples, evaluated\<close>

lemma main_walk_one: "main_walk ''r'' one_file_tree = (Return None, [''r/a''])"
  by (simp add: main_walk_def Walk_def one_file_tree_def IsDir_def walkWith_def Join_def)

lemma main_walk_two: "main_walk ''r'' two_file_tree = (Return None, [''r/a'', ''r/a2''])"
  by (simp add: main_walk_def Walk_def two_file_tree_def IsDir_def walkWith_def Join_def)

lemma main_walk_locked: "main_walk ''r'' locked_tree = (Return None, [''r/a'', ''r/b'', ''r/c''])"
  by (simp add: main_walk_def Walk_def locked_tree_def IsDir_def walkWith_def Join_def)

lemma select_md5: "select_hash ''md5'' example_hashers = Some example_md5"
  by (simp add: select_hash_def example_hashers_def)

lemma select_md5_b: "select_hash ''md5'' example_hashers_b = Some example_md5_b"
  by (simp add: select_hash_def example_hashers_b_def)

lemma select_sha1: "select_hash ''sha1'' hs = None"
  by (simp add: select_hash_def)

lemma hex_digit_lower: "lower_hex (hex_digit n)"
proof -
  have "n mod 16 < length ''0123456789abcdef''" by simp
  then show ?thesis
    unfolding hex_digit_def lower_hex_def by (rule nth_mem)
qed

lemma hex_string_lower: "list_all lower_hex (hex_string bs)"
  by (induction bs) (simp_all add: hex_string_def hex_byte_def hex_digit_lower)

section \<open>The claims\<close>

text \<open>
  C1, as amended. An identifier outside crc, md5, sha256 is not rejected before the
  traversal. \<open>main\<close> walks the tree and starts one goroutine per entry that is not a
  directory, whatever the identifier; the identifier is checked inside
  \<open>checksumWorker\<close>, once per started goroutine, which returns the error
  \<open>Algorithm not supported.\<close> without calling a digest function and without printing.
  So no digest computation ever executes and the run prints nothing.
\<close>

theorem unsupported_algorithm_checked_in_each_worker:
  assumes "sign \<noteq> ''crc''" and "sign \<noteq> ''md5''" and "sign \<noteq> ''sha256''"
  shows "checksumWorker sign hs p = (Some ''Algorithm not supported.'', [])
       \<and> pool (run sign hs (replicate (length (snd (main_walk dest fs))) Main) (start dest fs))
           = map (\<lambda>p. (p, Ready)) (snd (main_walk dest fs))
       \<and> stdout (run sign hs sched (start dest fs)) = []
       \<and> hashing (run sign hs sched (start dest fs)) = 0"
proof -
  have sel: "select_hash sign hs = None"
    using assms by (simp add: select_hash_def)
  have walked: "pool (run sign hs (replicate (length (snd (main_walk dest fs))) Main) (start dest fs))
      = map (\<lambda>p. (p, Ready)) (snd (main_walk dest fs))"
    using run_spawn_all[of "start dest fs" sign hs] by (simp add: start_fields)
  have "stdout (run sign hs sched (start dest fs)) = []
      \<and> hashing (run sign hs sched (start dest fs)) = 0"
    by (rule run_unsupported[OF sel]) (simp_all add: start_fields main_walk_no_error hashing_def)
  with walked show ?thesis by (simp add: checksumWorker_def sel)
qed

theorem unsupported_algorithm_checked_in_each_worker_witness:
  "checksumWorker ''sha1'' example_hashers ''r/a'' = (Some ''Algorithm not supported.'', [])
   \<and> pool (run ''sha1'' example_hashers [Main] (start ''r'' one_file_tree)) = [(''r/a'', Ready)]
   \<and> stdout (run ''sha1'' example_hashers [Main, Worker 0, Main] (start ''r'' one_file_tree)) = []
   \<and> hashing (run ''sha1'' example_hashers [Main, Worker 0, Main] (start ''r'' one_file_tree)) = 0"
  using unsupported_algorithm_checked_in_each_worker
    [of "''sha1''" example_hashers "''r/a''" "''r''" one_file_tree "[Main, Worker 0, Main]"]
  by (simp add: main_walk_one)

text \<open>
  C1 as stated fails: with the identifier \<open>sha1\<close> and a directory holding one regular
  file, the traversal is performed and a goroutine is started for the file; the
  identifier is rejected inside that goroutine; the run ends with status 0 and has
  printed no error.
\<close>

theorem unsupported_algorithm_run_counterexample:
  "run ''sha1'' example_hashers [Main, Worker 0, Main] (start ''r'' one_file_tree) =
     \<lparr>to_spawn = [], ending = Return None, exit_status = Some 0,
      pool = [(''r/a'', Done (Some ''Algorithm not supported.''))], stdout = []\<rparr>"
  by (simp add: run_def step_def main_step_def worker_step_def start_def main_walk_one select_sha1)

text \<open>
  C2, as amended. There is no concurrency limit. Every entry that is not a directory
  gets its own goroutine as soon as the walk visits it, without waiting for any other:
  at every moment the discovered files are the goroutines started so far followed by
  those \<open>main\<close> has still to start. The number of digest computations executing at
  once is bounded only by the number of goroutines the walk starts, and with a supported
  identifier a run reaches that number.
\<close>

theorem concurrency_bounded_only_by_tasks:
  "map fst (pool (run sign hs sched (start dest fs))) @ to_spawn (run sign hs sched (start dest fs))
     = snd (main_walk dest fs)
   \<and> hashing (run sign hs sched (start dest fs)) \<le> length (snd (main_walk dest fs))
   \<and> (select_hash sign hs \<noteq> None \<longrightarrow>
        hashing (run sign hs
          (replicate (length (snd (main_walk dest fs))) Main
             @ map Worker [0..<length (snd (main_walk dest fs))])
          (start dest fs)) = length (snd (main_walk dest fs)))"
proof -
  let ?ps = "snd (main_walk dest fs)"
  let ?n = "length ?ps"
  let ?s = "run sign hs (replicate ?n Main) (start dest fs)"
  have s: "?s = (start dest fs)\<lparr>to_spawn := [], pool := map (\<lambda>p. (p, Ready)) ?ps\<rparr>"
    using run_spawn_all[of "start dest fs" sign hs] by (simp add: start_fields)
  have "hashing (run sign hs (map Worker [0..<?n]) ?s) = ?n"
    if "select_hash sign hs = Some filehash" for filehash
  proof -
    have "pool (run sign hs (map Worker [0..<?n]) ?s) =
       map (\<lambda>p. (p, Hashing)) (take ?n ?ps) @ map (\<lambda>p. (p, Ready)) (drop ?n ?ps)"
      using start_workers[OF that, of ?s ?ps ?n] by (simp add: s start_fields)
    then show ?thesis by (simp add: hashing_def filter_map comp_def)
  qed
  moreover have "map fst (pool (run sign hs sched (start dest fs)))
      @ to_spawn (run sign hs sched (start dest fs)) = snd (main_walk dest fs)"
    by (simp only: run_tasks) (simp add: start_fields)
  ultimately show ?thesis
    using hashing_bound[of sign hs sched dest fs] by (auto simp: run_append)
qed

theorem concurrency_bounded_only_by_tasks_witness:
  "map fst (pool (run ''md5'' example_hashers [Main, Worker 0, Main, Worker 1, Worker 0]
        (start ''r'' two_file_tree)))
     @ to_spawn (run ''md5'' example_hashers [Main, Worker 0, Main, Worker 1, Worker 0]
        (start ''r'' two_file_tree)) = [''r/a'', ''r/a2'']
   \<and> hashing (run ''md5'' example_hashers [Main, Worker 0, Main, Worker 1, Worker 0]
      (start ''r'' two_file_tree)) \<le> 2
   \<and> hashing (run ''md5'' example_hashers [Main, Main, Worker 0, Worker 1]
      (start ''r'' two_file_tree)) = 2"
  using concurrency_bounded_only_by_tasks
    [of "''md5''" example_hashers "[Main, Worker 0, Main, Worker 1, Worker 0]" "''r''" two_file_tree]
  by (simp add: main_walk_two select_md5 upt_rec)

text \<open>
  C2 as stated fails for the limit 1 (and likewise for any other): with two regular
  files, two digest computations execute at the same time.
\<close>

theorem two_concurrent_digests_counterexample:
  "\<not> hashing (run ''md5'' example_hashers [Main, Main, Worker 0, Worker 1]
        (start ''r'' two_file_tree)) \<le> 1"
  by (simp add: run_def step_def main_step_def worker_step_def start_def main_walk_two
      select_md5 hashing_def)

text \<open>
  C3, on the code: \<open>main\<close> returns as soon as \<open>Walk\<close> has returned and waits for no
  goroutine. With a directory holding one regular file, the run in which \<open>main\<close> moves
  twice ends with status 0 while the goroutine of \<open>r/a\<close> is still \<open>Ready\<close>: the task has
  produced no outcome and nothing was printed.
\<close>

theorem main_exits_before_worker_outcome:
  "run ''md5'' example_hashers [Main, Main] (start ''r'' one_file_tree) =
     \<lparr>to_spawn = [], ending = Return None, exit_status = Some 0,
      pool = [(''r/a'', Ready)], stdout = []\<rparr>"
  by (simp add: run_def step_def main_step_def start_def main_walk_one)

text \<open>
  C4, as amended. For a visited entry with a file info, \<open>walkWith\<close> returns nil and
  starts a goroutine exactly when the entry is not a directory: directories are never
  emitted as hashing tasks, and every other entry is, be it a regular file, a symbolic
  link or a special file.
\<close>

theorem walkWith_emits_every_non_directory:
  "walkWith path (Some info) err gs = (Return None, if IsDir info then gs else gs @ [path])"
  by (simp add: walkWith_def)

text \<open>C4 as stated fails: a symbolic link, which is not a regular file, is emitted.\<close>

theorem symlink_is_hashed_counterexample:
  "walkWith ''r/l'' (Some \<lparr>Mode = ModeSymlink\<rparr>) None [] = (Return None, [''r/l''])
   \<and> \<not> IsRegular \<lparr>Mode = ModeSymlink\<rparr>"
  by (simp add: walkWith_def IsDir_def IsRegular_def)


text \<open>
  C5. Let the digest function fail with error \<open>e\<close> on the file \<open>p\<close>. The move in which
  a goroutine of \<open>p\<close> learns of the failure sets that goroutine to done with \<open>e\<close> and
  prints \<open>Error: \<close> followed by the message of \<open>e\<close>, and changes nothing else of the state:
  no other goroutine, not what \<open>main\<close> has still to do, not the exit status.
  And over the whole run, under every schedule, the run is the one that would have
  taken place had the digest function given any other result on \<open>p\<close> (in particular, had
  it succeeded), but for the result of the goroutines of \<open>p\<close> and the text they print:
  the exit status, the goroutines \<open>main\<close> has started and has still to start, and the
  status and result of the goroutine of every other file are the same at every moment,
  and the output is made of the same pieces in the same order.
\<close>

theorem digest_failure_is_isolated:
  assumes sel: "select_hash sign hs = Some filehash"
    and failed: "filehash p = (cs, Some e)"
    and sel': "select_hash sign hs' = Some filehash'"
    and same: "\<And>q. q \<noteq> p \<Longrightarrow> filehash' q = filehash q"
  shows "(\<forall>s i. exit_status s = None \<and> i < length (pool s) \<and> pool s ! i = (p, Hashing) \<longrightarrow>
            step sign hs s (Worker i) =
              s\<lparr>pool := (pool s)[i := (p, Done (Some e))], stdout := stdout s @ ''Error: '' @ e\<rparr>)
       \<and> same_run_but p e (report p (filehash' p))
            (run sign hs sched (start dest fs)) (run sign hs' sched (start dest fs))
       \<and> exit_status (run sign hs sched (start dest fs))
            = exit_status (run sign hs' sched (start dest fs))
       \<and> to_spawn (run sign hs sched (start dest fs))
            = to_spawn (run sign hs' sched (start dest fs))
       \<and> length (pool (run sign hs sched (start dest fs)))
            = length (pool (run sign hs' sched (start dest fs)))
       \<and> (\<forall>j < length (pool (run sign hs sched (start dest fs))).
            fst (pool (run sign hs sched (start dest fs)) ! j) \<noteq> p \<longrightarrow>
              pool (run sign hs' sched (start dest fs)) ! j
                = pool (run sign hs sched (start dest fs)) ! j)
       \<and> (\<forall>j < length (pool (run sign hs sched (start dest fs))). \<forall>r.
            pool (run sign hs sched (start dest fs)) ! j = (p, Done r) \<longrightarrow> r = Some e)"
proof -
  let ?s = "run sign hs sched (start dest fs)"
  let ?s' = "run sign hs' sched (start dest fs)"
  let ?other = "report p (filehash' p)"
  have one: "step sign hs s (Worker i) =
      s\<lparr>pool := (pool s)[i := (p, Done (Some e))], stdout := stdout s @ ''Error: '' @ e\<rparr>"
    if "exit_status s = None" and "i < length (pool s)" and "pool s ! i = (p, Hashing)" for s i
    using that sel failed by (simp add: step_def worker_step_def report_def)
  have rel: "same_run_but p e ?other ?s ?s'"
    using run_same[OF sel sel' same failed start_same] by simp
  then have all: "list_all2 (same_task p e (fst ?other)) (pool ?s) (pool ?s')"
    by (simp add: same_run_but_def)
  have len: "length (pool ?s) = length (pool ?s')"
    using all by (rule list_all2_lengthD)
  have others: "pool ?s' ! j = pool ?s ! j"
    if "j < length (pool ?s)" and "fst (pool ?s ! j) \<noteq> p" for j
    using list_all2_nthD[OF all that(1)] that(2)
    by (simp add: same_task_def prod_eq_iff)
  have own: "r = Some e"
    if "j < length (pool ?s)" and "pool ?s ! j = (p, Done r)" for j r
    using list_all2_nthD[OF all that(1)] that(2)
    by (simp add: same_task_def)
  from one rel len others own show ?thesis
    by (simp add: same_run_but_def)
qed

lemma locked_state_reached:
  "run ''md5'' example_hashers [Main, Main, Worker 1, Worker 0] (start ''r'' locked_tree) =
     locked_state"
  by (simp add: run_def step_def main_step_def worker_step_def start_def main_walk_locked
      select_md5 locked_state_def)

text \<open>
  The witness: \<open>r/b\<close> cannot be opened under \<open>example_hashers\<close> and can under
  \<open>example_hashers_b\<close>. In the state \<open>locked_state\<close> the failure of \<open>r/b\<close> changes only its
  goroutine and the output. Under a schedule in which the goroutines of \<open>r/b\<close> and
  \<open>r/a\<close> finish before \<open>main\<close> returns, the two runs end with the same status and the same
  result for \<open>r/a\<close>; only the result of \<open>r/b\<close> differs.
\<close>

theorem digest_failure_is_isolated_witness:
  "step ''md5'' example_hashers locked_state (Worker 1) =
     \<lparr>to_spawn = [''r/c''], ending = Return None, exit_status = None,
      pool = [(''r/a'', Hashing), (''r/b'', Done (Some ''permission denied''))],
      stdout = ''Error: permission denied''\<rparr>
   \<and> exit_status (run ''md5'' example_hashers
        [Main, Main, Worker 1, Worker 1, Worker 0, Worker 0, Main, Main] (start ''r'' locked_tree))
      = Some 0
   \<and> exit_status (run ''md5'' example_hashers_b
        [Main, Main, Worker 1, Worker 1, Worker 0, Worker 0, Main, Main] (start ''r'' locked_tree))
      = Some 0
   \<and> pool (run ''md5'' example_hashers
        [Main, Main, Worker 1, Worker 1, Worker 0, Worker 0, Main, Main] (start ''r'' locked_tree))
      = [(''r/a'', Done None), (''r/b'', Done (Some ''permission denied'')), (''r/c'', Ready)]
   \<and> pool (run ''md5'' example_hashers_b
        [Main, Main, Worker 1, Worker 1, Worker 0, Worker 0, Main, Main] (start ''r'' locked_tree))
      = [(''r/a'', Done None), (''r/b'', Done None), (''r/c'', Ready)]"
proof -
  have failed: "example_md5 ''r/b'' = ([], Some ''permission denied'')"
    by (simp add: example_md5_def)
  have same: "example_md5_b q = example_md5 q" if "q \<noteq> ''r/b''" for q
    using that by (simp add: example_md5_def example_md5_b_def)
  have h: "exit_status locked_state = None \<and> 1 < length (pool locked_state)
      \<and> pool locked_state ! 1 = (''r/b'', Hashing)"
    by (simp add: locked_state_def)
  have r1: "pool (run ''md5'' example_hashers
        [Main, Main, Worker 1, Worker 1, Worker 0, Worker 0, Main, Main] (start ''r'' locked_tree))
      = [(''r/a'', Done None), (''r/b'', Done (Some ''permission denied'')), (''r/c'', Ready)]"
    by (simp add: run_def step_def main_step_def worker_step_def start_def main_walk_locked
        select_md5 report_def example_md5_def)
  have r2: "pool (run ''md5'' example_hashers_b
        [Main, Main, Worker 1, Worker 1, Worker 0, Worker 0, Main, Main] (start ''r'' locked_tree))
      = [(''r/a'', Done None), (''r/b'', Done None), (''r/c'', Ready)]"
    by (simp add: run_def step_def main_step_def worker_step_def start_def main_walk_locked
        select_md5_b report_def example_md5_b_def)
  have e1: "exit_status (run ''md5'' example_hashers
        [Main, Main, Worker 1, Worker 1, Worker 0, Worker 0, Main, Main] (start ''r'' locked_tree))
      = Some 0"
    by (simp add: run_def step_def main_step_def worker_step_def start_def main_walk_locked
        select_md5 report_def example_md5_def)
  note th = digest_failure_is_isolated[OF select_md5 failed select_md5_b same,
      of "[Main, Main, Worker 1, Worker 1, Worker 0, Worker 0, Main, Main]" "''r''" locked_tree]
  from th have "step ''md5'' example_hashers locked_state (Worker 1) =
      locked_state\<lparr>pool := (pool locked_state)[1 := (''r/b'', Done (Some ''permission denied''))],
        stdout := stdout locked_state @ ''Error: '' @ ''permission denied''\<rparr>"
    using h by blast
  then have st: "step ''md5'' example_hashers locked_state (Worker 1) =
     \<lparr>to_spawn = [''r/c''], ending = Return None, exit_status = None,
      pool = [(''r/a'', Hashing), (''r/b'', Done (Some ''permission denied''))],
      stdout = ''Error: permission denied''\<rparr>"
    by (simp add: locked_state_def)
  from th have "exit_status (run ''md5'' example_hashers
        [Main, Main, Worker 1, Worker 1, Worker 0, Worker 0, Main, Main] (start ''r'' locked_tree))
      = exit_status (run ''md5'' example_hashers_b
        [Main, Main, Worker 1, Worker 1, Worker 0, Worker 0, Main, Main] (start ''r'' locked_tree))"
    by blast
  with e1 st r1 r2 show ?thesis by simp
qed

text \<open>
  C6, as amended. The exit status does not depend on the algorithm identifier.
  \<open>main\<close> reports an error only by printing and then returns: whenever every \<open>Lstat\<close>
  of the traversal succeeds, the process can only end with status 0, and does so once
  \<open>main\<close> has run, whatever the identifier and also when the root is a file or a
  directory that cannot be listed.
\<close>

theorem exit_status_zero_when_walk_returns:
  assumes "lstat_ok fs"
  shows "(\<forall>c. exit_status (run sign hs sched (start dest fs)) = Some c \<longrightarrow> c = 0)
       \<and> exit_status (run sign hs (replicate (Suc (length (snd (main_walk dest fs)))) Main)
            (start dest fs)) = Some 0"
proof -
  have e: "ending (start dest fs) = Return None"
    using main_walk_returns[OF assms, of dest] by (simp add: start_fields)
  have a: "c = 0" if "exit_status (run sign hs sched (start dest fs)) = Some c" for c sched
    using run_exit_status[OF that] e by (auto simp: start_fields)
  have "exit_status (run sign hs (replicate (Suc (length (to_spawn (start dest fs)))) Main)
      (start dest fs)) \<noteq> None"
    by (rule run_main_exits) (simp add: start_fields)
  then obtain c where
    "exit_status (run sign hs (replicate (Suc (length (snd (main_walk dest fs)))) Main)
      (start dest fs)) = Some c"
    by (auto simp: start_fields)
  with a[of _ c] a show ?thesis by blast
qed

theorem exit_status_zero_when_walk_returns_witness:
  "lstat_ok one_file_tree
   \<and> exit_status (run ''sha1'' example_hashers [Main, Main] (start ''r'' one_file_tree)) = Some 0
   \<and> lstat_ok (Unlistable ''permission denied'')
   \<and> exit_status (run ''md5'' example_hashers [Main] (start ''r'' (Unlistable ''permission denied'')))
       = Some 0"
proof -
  have ok1: "lstat_ok one_file_tree" by (simp add: one_file_tree_def)
  have ok2: "lstat_ok (Unlistable ''permission denied'')" by simp
  have w2: "main_walk ''r'' (Unlistable ''permission denied'') = (Return None, [])"
    by (simp add: main_walk_def Walk_def walkWith_def IsDir_def)
  show ?thesis
    using exit_status_zero_when_walk_returns[OF ok1, of "''sha1''" example_hashers "[]" "''r''"]
      exit_status_zero_when_walk_returns[OF ok2, of "''md5''" example_hashers "[]" "''r''"]
      ok1 ok2
    by (simp add: main_walk_one w2)
qed

text \<open>
  C6 as stated fails: with the unrecognized identifier \<open>sha1\<close> the process ends with
  status 0.
\<close>

theorem unsupported_algorithm_exit_zero_counterexample:
  "exit_status (run ''sha1'' example_hashers [Main, Worker 0, Worker 0, Main]
      (start ''r'' one_file_tree)) = Some 0"
  by (simp add: run_def step_def main_step_def worker_step_def start_def main_walk_one select_sha1)

text \<open>
  C7, as amended. With a supported identifier, \<open>checksumWorker\<close> prints for a file whose
  digest function succeeds the line \<open><path> :: <digest>\<close> ended by a newline, and for a
  file whose digest function fails the text \<open>Error: \<close> followed by the error's message;
  it does not add the path to that message.
\<close>

theorem checksumWorker_output_format:
  assumes "select_hash sign hs = Some filehash"
  shows "(filehash path = (cs, None) \<longrightarrow>
            snd (checksumWorker sign hs path) = path @ '' :: '' @ cs @ newline)
       \<and> (filehash path = (cs, Some e) \<longrightarrow>
            snd (checksumWorker sign hs path) = ''Error: '' @ e)"
  using assms by (simp add: checksumWorker_def report_def)

theorem checksumWorker_output_format_witness:
  "snd (checksumWorker ''md5'' example_hashers ''r/a'')
     = ''r/a :: d41d8cd98f00b204e9800998ecf8427e'' @ newline
   \<and> snd (checksumWorker ''md5'' example_hashers ''r/b'') = ''Error: permission denied''"
  using checksumWorker_output_format
      [of "''md5''" example_hashers example_md5 "''r/a''" "''d41d8cd98f00b204e9800998ecf8427e''"]
    checksumWorker_output_format
      [of "''md5''" example_hashers example_md5 "''r/b''" "[]" "''permission denied''"]
  by (simp add: select_md5 example_md5_def)

text \<open>
  C7 as stated fails: when \<open>r/b\<close> and \<open>r/c\<close> cannot be opened, the whole output of the
  run is the text below, which is not one line per failed file and names neither path.
\<close>

theorem error_output_counterexample:
  "stdout (run ''md5'' example_hashers [Main, Main, Main, Worker 1, Worker 2, Worker 1, Worker 2]
      (start ''r'' locked_tree)) = ''Error: permission deniedError: permission denied''"
  by (simp add: run_def step_def main_step_def worker_step_def start_def main_walk_locked
      select_md5 report_def example_md5_def)

text \<open>
  C8, on the digest function as section 4.1 of the spec describes it. Two files with the
  same bytes get the same digest string under a fixed algorithm, the digest function
  does not fail on them, and a digest is a string of the characters 0 to 9 and a to f.
\<close>

theorem digest_deterministic_lowercase_hex:
  assumes "readFile p = Inr bytes" and "readFile q = Inr bytes"
  shows "digestFunction alg readFile p = digestFunction alg readFile q
       \<and> snd (digestFunction alg readFile p) = None
       \<and> list_all lower_hex (fst (digestFunction alg readFile p))"
  using assms by (simp add: digestFunction_def hex_string_lower)

theorem digest_deterministic_lowercase_hex_witness:
  "digestFunction rev
      (\<lambda>p. if p = ''x'' \<or> p = ''y'' then Inr [0x68, 0xAB] else Inl ''no such file'') ''x''
     = (''ab68'', None)
   \<and> digestFunction rev
      (\<lambda>p. if p = ''x'' \<or> p = ''y'' then Inr [0x68, 0xAB] else Inl ''no such file'') ''y''
     = (''ab68'', None)
   \<and> list_all lower_hex ''ab68''"
  using digest_deterministic_lowercase_hex
    [of "\<lambda>p. if p = ''x'' \<or> p = ''y'' then Inr [0x68, 0xAB] else Inl ''no such file''"
        "''x''" "[0x68, 0xAB]" "''y''" rev]
  by (simp add: digestFunction_def hex_string_def hex_byte_def hex_digit_def)

text \<open>
  C9, on the code: two runs over the same tree with the same algorithm can print
  different sets of success outcomes. With a directory holding one regular file, the run
  in which the goroutine finishes before \<open>main\<close> returns prints the file's line; the run
  in which \<open>main\<close> returns first prints nothing. Both end with status 0.
\<close>

theorem two_runs_same_tree_differ:
  "stdout (run ''md5'' example_hashers [Main, Worker 0, Worker 0, Main] (start ''r'' one_file_tree))
     = ''r/a :: d41d8cd98f00b204e9800998ecf8427e'' @ newline
   \<and> exit_status (run ''md5'' example_hashers [Main, Worker 0, Worker 0, Main]
        (start ''r'' one_file_tree)) = Some 0
   \<and> stdout (run ''md5'' example_hashers [Main, Main, Worker 0, Worker 0] (start ''r'' one_file_tree))
     = []
   \<and> exit_status (run ''md5'' example_hashers [Main, Main, Worker 0, Worker 0]
        (start ''r'' one_file_tree)) = Some 0"
  by (simp add: run_def step_def main_step_def worker_step_def start_def main_walk_one select_md5
      report_def example_md5_def)

text \<open>
  A directory whose names cannot be read is given to \<open>walkWith\<close> with its file info:
  \<open>walkWith\<close> returns nil, the directory is skipped and its error is not reported.
\<close>

lemma unlistable_directory_is_skipped:
  "main_walk dest (Unlistable e) = (Return None, [])"
  by (simp add: main_walk_def Walk_def walkWith_def IsDir_def)

text \<open>
  C10, as amended. \<open>walkWith\<close> does not read its error argument and calls
  \<open>info.IsDir()\<close> first. \<open>filepath.Walk\<close> gives it a nil file info with the error when
  \<open>Lstat\<close> fails, on the root or on an entry of a directory: \<open>walkWith\<close> then panics on
  the nil info, without starting a goroutine and without returning the error, and the
  walk ends in that panic. A directory whose names cannot be read is given with its
  file info and the error: \<open>walkWith\<close> returns nil and the error is dropped.
\<close>

theorem walkWith_nil_info_panics:
  "walkWith path None err gs = (Panic nil_dereference, gs)
   \<and> walkWith path info err gs = walkWith path info None gs
   \<and> main_walk dest (Broken e) = (Panic nil_dereference, [])
   \<and> main_walk dest (Node ModeDir ((name, Broken e) # rest)) = (Panic nil_dereference, [])
   \<and> walk walkWith path (Unlistable e) gs = walkWith path (Some \<lparr>Mode = ModeDir\<rparr>) (Some e) gs
   \<and> walkWith path (Some \<lparr>Mode = ModeDir\<rparr>) (Some e) gs = (Return None, gs)"
  by (simp add: walkWith_def main_walk_def Walk_def IsDir_def)

text \<open>
  C10 as stated fails in its example: for a root directory that cannot be listed,
  \<open>filepath.Walk\<close> calls \<open>walkWith\<close> with a file info that is not nil and the error;
  \<open>walkWith\<close> returns nil, nothing panics and the walk returns nil.
\<close>

theorem unlistable_directory_counterexample:
  "walk walkWith ''r'' (Unlistable ''permission denied'') []
     = walkWith ''r'' (Some \<lparr>Mode = ModeDir\<rparr>) (Some ''permission denied'') []
   \<and> walkWith ''r'' (Some \<lparr>Mode = ModeDir\<rparr>) (Some ''permission denied'') [] = (Return None, [])
   \<and> main_walk ''r'' (Unlistable ''permission denied'') = (Return None, [])"
  by (simp add: walkWith_def main_walk_def Walk_def IsDir_def)


end
